theory Spec2Isabelle
  imports Complex_Main
begin

section \<open>Data model of game.js\<close>

text \<open>
  The game keeps its whole simulation state in the variables of one closure
  (game.js, lines 20-30).  JavaScript numbers are modelled by exact reals; the canvas
  size \<open>W\<close>, \<open>H\<close> (\<open>canvas.width\<close>, \<open>canvas.height\<close>, unsigned integers of the DOM)
  is a pair of naturals passed to every function that reads it.  The score only ever
  takes the values 0, 1, 2, ... and is a natural number.  Every call of
  \<open>Math.random()\<close> and of \<open>performance.now()\<close> is an input of the function
  that makes it.
\<close>

record drop =
  drop_x :: real
  drop_y :: real
  drop_r :: real
  drop_vy :: real
  drop_color :: string

record obstacle =
  ob_x :: real
  ob_w :: real
  ob_gapY :: real
  ob_gapH :: real
  ob_scored :: bool
  ob_type :: string

text \<open>
  The closure variables, followed by the three DOM properties the simulation writes:
  \<open>scoreUI.textContent\<close>, \<open>overlay.style.display\<close> and \<open>gameoverText.textContent\<close>.
  \<open>drop\<close> is \<open>null\<close> until the first reset, hence an option.
\<close>

record state =
  drop_ref :: "drop option"
  obstacles :: "obstacle list"
  lastSpawn :: real
  spawnInterval :: real
  speed :: real
  running :: bool
  lastTime :: real
  score :: nat
  scoreUI_text :: string
  overlay_display :: string
  gameover_text :: string

text \<open>The two \<open>let\<close> bindings that are never assigned again (lines 26-27).\<close>

definition gravity :: real where
  "gravity = 0.45"

definition lift :: real where
  "lift = - 8.8"

text \<open>Reading a property of \<open>null\<close> throws a \<open>TypeError\<close>.\<close>

datatype error = TypeError

text \<open>The draws of \<open>Math.random()\<close> one call of \<open>update\<close> can make, in program order.\<close>

record draws =
  u_gap :: real
  u_speed :: real
  u_interval :: real

section \<open>Template literals\<close>

text \<open>The decimal rendering of a non-negative integer, as \<open>${score}\<close> produces it.\<close>

definition digit_char :: "nat \<Rightarrow> char" where
  "digit_char n = ''0123456789'' ! n"

function nat_to_string :: "nat \<Rightarrow> string" where
  "nat_to_string n =
     (if n < 10 then [digit_char n]
      else nat_to_string (n div 10) @ [digit_char (n mod 10)])"
  by pat_completeness auto
termination
  by (relation "measure id") auto

declare nat_to_string.simps [simp del]

definition score_label :: "nat \<Rightarrow> string" where
  "score_label n = ''Water delivered: '' @ nat_to_string n"

definition gameover_message :: "nat \<Rightarrow> string" where
  "gameover_message n =
     ''You delivered water to '' @ nat_to_string n @
     '' people. Real clean water lasts a lifetime.''"

section \<open>The operations\<close>

text \<open>
  The values of the closure variables when the script starts (lines 21-30).  The
  texts the page shows before the script writes them come from the HTML document,
  which the script does not determine; they are empty here, and \<open>reset\<close> overwrites
  two of them before the first frame.
\<close>

definition initial :: state where
  "initial =
     \<lparr>drop_ref = None, obstacles = [], lastSpawn = 0, spawnInterval = 1400,
      speed = 2.2, running = False, lastTime = 0, score = 0,
      scoreUI_text = [], overlay_display = [], gameover_text = []\<rparr>"

text \<open>
  \<open>reset\<close> (lines 32-49).  \<open>t1\<close> and \<open>t2\<close> are the two readings of
  \<open>performance.now()\<close>.
\<close>

definition reset :: "nat \<Rightarrow> real \<Rightarrow> real \<Rightarrow> state \<Rightarrow> state" where
  "reset H t1 t2 s =
     s\<lparr>drop_ref :=
          Some \<lparr>drop_x = 110, drop_y = real H / 2, drop_r = 14, drop_vy = 0,
                drop_color = ''#3fe6ff''\<rparr>,
       obstacles := [],
       lastSpawn := t1,
       score := 0,
       running := True,
       overlay_display := ''none'',
       scoreUI_text := score_label 0,
       lastTime := t2,
       speed := 2.2\<rparr>"

text \<open>
  \<open>spawnObstacle\<close> (lines 51-65); \<open>u\<close> is the value of \<open>Math.random()\<close>.
  \<open>gap_top\<close> is the expression of line 55.
\<close>

definition gap_top :: "nat \<Rightarrow> real \<Rightarrow> real" where
  "gap_top H u =
     (let gapHeight = 140; minGapY = 90; maxGapY = real H - 90 - gapHeight
      in real_of_int \<lfloor>u * (maxGapY - minGapY + 1)\<rfloor> + minGapY)"

definition new_obstacle :: "nat \<Rightarrow> nat \<Rightarrow> real \<Rightarrow> obstacle" where
  "new_obstacle W H u =
     \<lparr>ob_x = real W + 10, ob_w = 84, ob_gapY = gap_top H u, ob_gapH = 140,
      ob_scored = False, ob_type = ''pipe''\<rparr>"

definition spawnObstacle :: "nat \<Rightarrow> nat \<Rightarrow> real \<Rightarrow> real \<Rightarrow> state \<Rightarrow> state" where
  "spawnObstacle W H u now s = s\<lparr>obstacles := obstacles s @ [new_obstacle W H u]\<rparr>"

text \<open>\<open>circleRectColliding\<close> (lines 67-74).\<close>

definition circleRectColliding ::
  "real \<Rightarrow> real \<Rightarrow> real \<Rightarrow> real \<Rightarrow> real \<Rightarrow> real \<Rightarrow> real \<Rightarrow> bool" where
  "circleRectColliding cx cy r rx ry rw rh =
     (let closestX = max rx (min cx (rx + rw));
          closestY = max ry (min cy (ry + rh));
          dx = cx - closestX;
          dy = cy - closestY
      in dx * dx + dy * dy \<le> r * r)"

text \<open>\<open>endGame\<close> (lines 181-186).\<close>

definition endGame :: "state \<Rightarrow> state" where
  "endGame s =
     s\<lparr>running := False,
       gameover_text := gameover_message (score s),
       overlay_display := ''flex''\<rparr>"

subsection \<open>The phases of \<open>update\<close>\<close>

text \<open>Lines 80-81: \<open>drop.vy += gravity; drop.y += drop.vy\<close>.\<close>

definition integrate :: "drop \<Rightarrow> drop" where
  "integrate d =
     (let d1 = d\<lparr>drop_vy := drop_vy d + gravity\<rparr>
      in d1\<lparr>drop_y := drop_y d1 + drop_vy d1\<rparr>)"

text \<open>Lines 84-90: the spawn gate and the drift of the difficulty.\<close>

definition spawn_gate :: "real \<Rightarrow> state \<Rightarrow> bool" where
  "spawn_gate now s = (now - lastSpawn s > spawnInterval s)"

definition spawn_phase :: "nat \<Rightarrow> nat \<Rightarrow> draws \<Rightarrow> real \<Rightarrow> state \<Rightarrow> state" where
  "spawn_phase W H rnd now s =
     (if spawn_gate now s then
        (let s1 = spawnObstacle W H (u_gap rnd) now s;
             s2 = s1\<lparr>lastSpawn := now\<rparr>;
             s3 = (if u_speed rnd < 0.12 then s2\<lparr>speed := speed s2 + 0.05\<rparr> else s2)
         in if u_interval rnd < 0.07
            then s3\<lparr>spawnInterval := max 900 (spawnInterval s3 - 20)\<rparr>
            else s3)
      else s)"

text \<open>\<open>obstacles.splice(i, 1)\<close>.\<close>

definition splice1 :: "nat \<Rightarrow> 'a list \<Rightarrow> 'a list" where
  "splice1 i xs = take i xs @ drop (Suc i) xs"

text \<open>
  Lines 94-103: the body of the movement loop at index \<open>i\<close>.  The obstacle is an
  object held only by the array, so assigning to its fields is an update of the
  array at \<open>i\<close>.
\<close>

definition move_body :: "drop \<Rightarrow> nat \<Rightarrow> state \<Rightarrow> state" where
  "move_body d i s =
     (let ob = obstacles s ! i;
          ob1 = ob\<lparr>ob_x := ob_x ob - speed s\<rparr>;
          s1 = s\<lparr>obstacles := (obstacles s)[i := ob1]\<rparr>;
          s2 = (if \<not> ob_scored ob1 \<and> ob_x ob1 + ob_w ob1 < drop_x d - drop_r d
                then s1\<lparr>obstacles := (obstacles s1)[i := ob1\<lparr>ob_scored := True\<rparr>],
                        score := score s1 + 1,
                        scoreUI_text := score_label (score s1 + 1)\<rparr>
                else s1);
          ob2 = obstacles s2 ! i
      in if ob_x ob2 + ob_w ob2 < - 50
         then s2\<lparr>obstacles := splice1 i (obstacles s2)\<rparr>
         else s2)"

text \<open>
  Line 93: \<open>for (let i = obstacles.length - 1; i >= 0; i--)\<close>.  \<open>move_loop n\<close> runs
  the iterations \<open>i = n - 1, ..., 0\<close>; the loop starts at the length of the array.
  An iteration removes at most the element at its own index, so every index the
  loop reads is inside the array.
\<close>

fun move_loop :: "drop \<Rightarrow> nat \<Rightarrow> state \<Rightarrow> state" where
  "move_loop d 0 s = s"
| "move_loop d (Suc i) s = move_loop d i (move_body d i s)"

definition move_obstacles :: "drop \<Rightarrow> state \<Rightarrow> state" where
  "move_obstacles d s = move_loop d (length (obstacles s)) s"

text \<open>
  Lines 107-118: the collision loop; it stops at the first rectangle the drop
  touches.
\<close>

definition hits_top :: "drop \<Rightarrow> obstacle \<Rightarrow> bool" where
  "hits_top d ob =
     circleRectColliding (drop_x d) (drop_y d) (drop_r d) (ob_x ob) 0 (ob_w ob) (ob_gapY ob)"

definition hits_bottom :: "nat \<Rightarrow> drop \<Rightarrow> obstacle \<Rightarrow> bool" where
  "hits_bottom H d ob =
     circleRectColliding (drop_x d) (drop_y d) (drop_r d) (ob_x ob)
       (ob_gapY ob + ob_gapH ob) (ob_w ob) (real H - (ob_gapY ob + ob_gapH ob))"

fun hits_pipe :: "nat \<Rightarrow> drop \<Rightarrow> obstacle list \<Rightarrow> bool" where
  "hits_pipe H d [] = False"
| "hits_pipe H d (ob # obs) =
     (if hits_top d ob then True
      else if hits_bottom H d ob then True
      else hits_pipe H d obs)"

text \<open>Line 121: the boundary test.\<close>

definition out_of_bounds :: "nat \<Rightarrow> drop \<Rightarrow> bool" where
  "out_of_bounds H d = (drop_y d - drop_r d > real H \<or> drop_y d + drop_r d < 0)"

text \<open>\<open>update\<close> (lines 76-125).  \<open>dt\<close> is a parameter the body never reads.\<close>

definition update :: "nat \<Rightarrow> nat \<Rightarrow> draws \<Rightarrow> real \<Rightarrow> real \<Rightarrow> state \<Rightarrow> error + state" where
  "update W H rnd dt now s =
     (if \<not> running s then Inr s
      else case drop_ref s of
        None \<Rightarrow> Inl TypeError
      | Some d0 \<Rightarrow>
          (let d = integrate d0;
               s1 = s\<lparr>drop_ref := Some d\<rparr>;
               s2 = spawn_phase W H rnd now s1;
               s3 = move_obstacles d s2
           in if hits_pipe H d (obstacles s3) then Inr (endGame s3)
              else if out_of_bounds H d then Inr (endGame s3)
              else Inr s3))"

text \<open>
  \<open>loop\<close> (lines 173-179).  \<open>draw\<close> changes nothing of the state, but reads
  \<open>drop.color\<close>, which throws when the drop is \<open>null\<close>.  Scheduling the next frame
  is left to the environment: a frame is an event (see \<open>exec\<close>).
\<close>

definition loop :: "nat \<Rightarrow> nat \<Rightarrow> draws \<Rightarrow> real \<Rightarrow> state \<Rightarrow> error + state" where
  "loop W H rnd now s =
     (let dt = (now - lastTime s) / 1000
      in case update W H rnd dt now s of
           Inl e \<Rightarrow> Inl e
         | Inr s1 \<Rightarrow>
             (case drop_ref s1 of
                None \<Rightarrow> Inl TypeError
              | Some d \<Rightarrow> Inr (s1\<lparr>lastTime := now\<rparr>)))"

text \<open>\<open>flap\<close> (lines 189-196).\<close>

definition flap :: "nat \<Rightarrow> real \<Rightarrow> real \<Rightarrow> state \<Rightarrow> error + state" where
  "flap H t1 t2 s =
     (if \<not> running s then Inr (reset H t1 t2 s)
      else case drop_ref s of
        None \<Rightarrow> Inl TypeError
      | Some d \<Rightarrow> Inr (s\<lparr>drop_ref := Some (d\<lparr>drop_vy := lift\<rparr>)\<rparr>))"

subsection \<open>The program as a reaction to events\<close>

text \<open>
  The callbacks the script registers: an animation frame (\<open>loop\<close>), a pointer press
  or the space bar (\<open>flap\<close>), and the restart button (\<open>reset\<close>).  Each runs to its
  end before the next starts.
\<close>

datatype event =
  Frame draws real
| Activate real real
| Restart real real

fun exec :: "nat \<Rightarrow> nat \<Rightarrow> event \<Rightarrow> state \<Rightarrow> error + state" where
  "exec W H (Frame rnd now) s = loop W H rnd now s"
| "exec W H (Activate t1 t2) s = flap H t1 t2 s"
| "exec W H (Restart t1 t2) s = Inr (reset H t1 t2 s)"

fun execs :: "nat \<Rightarrow> nat \<Rightarrow> event list \<Rightarrow> state \<Rightarrow> error + state" where
  "execs W H [] s = Inr s"
| "execs W H (ev # evs) s =
     (case exec W H ev s of Inl e \<Rightarrow> Inl e | Inr s1 \<Rightarrow> execs W H evs s1)"

text \<open>Lines 217-219: the script ends by starting the first run.\<close>

definition boot :: "nat \<Rightarrow> real \<Rightarrow> real \<Rightarrow> state" where
  "boot H t1 t2 = reset H t1 t2 initial"

section \<open>Notions used to state the properties\<close>

subsection \<open>What the movement loop does to one obstacle\<close>

text \<open>
  The effect of one iteration of the movement loop on the obstacle it visits, at
  obstacle speed \<open>v\<close>: the decrement of line 95 and the scoring of lines 97-101.
\<close>

definition moved :: "real \<Rightarrow> drop \<Rightarrow> obstacle \<Rightarrow> obstacle" where
  "moved v d ob =
     (let ob1 = ob\<lparr>ob_x := ob_x ob - v\<rparr>
      in if \<not> ob_scored ob1 \<and> ob_x ob1 + ob_w ob1 < drop_x d - drop_r d
         then ob1\<lparr>ob_scored := True\<rparr> else ob1)"

text \<open>The removal test of line 103.\<close>

definition offscreen :: "obstacle \<Rightarrow> bool" where
  "offscreen ob = (ob_x ob + ob_w ob < - 50)"

text \<open>The trailing edge of the obstacle is behind the edge \<open>drop.x - drop.r\<close> of the drop.\<close>

definition passed :: "drop \<Rightarrow> obstacle \<Rightarrow> bool" where
  "passed d ob = (ob_x ob + ob_w ob < drop_x d - drop_r d)"

text \<open>The obstacle is not scored yet and the move by \<open>v\<close> takes it past the drop.\<close>

definition newly_scored :: "real \<Rightarrow> drop \<Rightarrow> obstacle \<Rightarrow> bool" where
  "newly_scored v d ob = (\<not> ob_scored ob \<and> passed d (ob\<lparr>ob_x := ob_x ob - v\<rparr>))"

definition survivors :: "real \<Rightarrow> drop \<Rightarrow> obstacle list \<Rightarrow> obstacle list" where
  "survivors v d obs = filter (\<lambda>ob. \<not> offscreen ob) (map (moved v d) obs)"

definition gained :: "real \<Rightarrow> drop \<Rightarrow> obstacle list \<Rightarrow> nat" where
  "gained v d obs = length (filter (newly_scored v d) obs)"

text \<open>The obstacle the spawn phase of a frame appends, if its gate fires.\<close>

definition spawned :: "nat \<Rightarrow> nat \<Rightarrow> draws \<Rightarrow> real \<Rightarrow> state \<Rightarrow> obstacle list" where
  "spawned W H rnd now s = (if spawn_gate now s then [new_obstacle W H (u_gap rnd)] else [])"

text \<open>The obstacle speed after the spawn phase of a frame.\<close>

definition drifted_speed :: "draws \<Rightarrow> real \<Rightarrow> state \<Rightarrow> real" where
  "drifted_speed rnd now s =
     (if spawn_gate now s \<and> u_speed rnd < 0.12 then speed s + 0.05 else speed s)"

text \<open>An obstacle followed over several frames, one speed for each frame.\<close>

definition moved_through :: "drop \<Rightarrow> real list \<Rightarrow> obstacle \<Rightarrow> obstacle" where
  "moved_through d vs ob = foldl (\<lambda>ob v. moved v d ob) ob vs"

text \<open>
  The flags agree with the positions: the speed is not negative, and an obstacle of
  the collection is scored exactly when its trailing edge is behind the drop.
\<close>

definition in_step :: "state \<Rightarrow> bool" where
  "in_step s =
     (0 \<le> speed s \<and>
      (case drop_ref s of
         None \<Rightarrow> True
       | Some d \<Rightarrow> list_all (\<lambda>ob. ob_scored ob = passed d ob) (obstacles s)))"

subsection \<open>The geometry of the collision test, in the words of the specification\<close>

definition clamp_into :: "real \<Rightarrow> real \<Rightarrow> real \<Rightarrow> real" where
  "clamp_into lo hi v = (if v < lo then lo else if hi < v then hi else v)"

definition sq_dist_clamped ::
  "real \<Rightarrow> real \<Rightarrow> real \<Rightarrow> real \<Rightarrow> real \<Rightarrow> real \<Rightarrow> real" where
  "sq_dist_clamped cx cy rx ry rw rh =
     (cx - clamp_into rx (rx + rw) cx)\<^sup>2 + (cy - clamp_into ry (ry + rh) cy)\<^sup>2"

definition in_rect :: "real \<Rightarrow> real \<Rightarrow> real \<Rightarrow> real \<Rightarrow> real \<Rightarrow> real \<Rightarrow> bool" where
  "in_rect px py rx ry rw rh = (rx \<le> px \<and> px \<le> rx + rw \<and> ry \<le> py \<and> py \<le> ry + rh)"

subsection \<open>Obstacles, draws and events\<close>

text \<open>The bound on the gap of an obstacle, for a play area of height \<open>H\<close>.\<close>

definition gap_ok :: "nat \<Rightarrow> obstacle \<Rightarrow> bool" where
  "gap_ok H ob =
     (ob_gapY ob \<in> \<int> \<and> ob_gapH ob = 140 \<and> 90 \<le> ob_gapY ob \<and>
      ob_gapY ob + ob_gapH ob \<le> real H - 90)"

text \<open>\<open>Math.random()\<close> returns a number in the interval from 0 (included) to 1 (excluded).\<close>

definition unit_draw :: "real \<Rightarrow> bool" where
  "unit_draw u = (0 \<le> u \<and> u < 1)"

fun valid_event :: "event \<Rightarrow> bool" where
  "valid_event (Frame rnd now) =
     (unit_draw (u_gap rnd) \<and> unit_draw (u_speed rnd) \<and> unit_draw (u_interval rnd))"
| "valid_event (Activate t1 t2) = True"
| "valid_event (Restart t1 t2) = True"

text \<open>The event calls \<open>reset\<close>: the restart button, or an activate action between runs.\<close>

fun calls_reset :: "event \<Rightarrow> state \<Rightarrow> bool" where
  "calls_reset (Frame rnd now) s = False"
| "calls_reset (Activate t1 t2) s = (\<not> running s)"
| "calls_reset (Restart t1 t2) s = True"

text \<open>The event is a frame of a run whose spawn gate fires and whose third draw is below 0.07.\<close>

fun tightens :: "event \<Rightarrow> state \<Rightarrow> bool" where
  "tightens (Frame rnd now) s = (running s \<and> spawn_gate now s \<and> u_interval rnd < 0.07)"
| "tightens (Activate t1 t2) s = False"
| "tightens (Restart t1 t2) s = False"

text \<open>Reading a result: the run goes on, and the x coordinates of the obstacles.\<close>

definition running_after :: "error + state \<Rightarrow> bool" where
  "running_after r = (case r of Inl e \<Rightarrow> False | Inr s \<Rightarrow> running s)"

definition xs_after :: "error + state \<Rightarrow> real list" where
  "xs_after r = (case r of Inl e \<Rightarrow> [] | Inr s \<Rightarrow> map ob_x (obstacles s))"

text \<open>The gap tops of the obstacles of a result.\<close>

definition gaps_after :: "error + state \<Rightarrow> real list" where
  "gaps_after r = (case r of Inl e \<Rightarrow> [] | Inr s \<Rightarrow> map ob_gapY (obstacles s))"

subsection \<open>Concrete inputs\<close>

text \<open>Draws that leave the difficulty alone, and draws that change both parameters.\<close>

definition calm :: draws where
  "calm = \<lparr>u_gap = 0.5, u_speed = 0.5, u_interval = 0.5\<rparr>"

definition drifting :: draws where
  "drifting = \<lparr>u_gap = 0.5, u_speed = 0.05, u_interval = 0.05\<rparr>"

text \<open>\<open>n\<close> frames, 16 ms apart, with no input in between.\<close>

definition free_fall :: "nat \<Rightarrow> event list" where
  "free_fall n = map (\<lambda>k. Frame calm (16 * real k)) [1..<Suc n]"

text \<open>
  A 480 x 640 canvas, 36 frames into a run started at time 0 in which the player
  never acts: the drop has fallen to y = 619.7.
\<close>

definition low_drop :: drop where
  "low_drop =
     \<lparr>drop_x = 110, drop_y = 619.7, drop_r = 14, drop_vy = 16.2, drop_color = ''#3fe6ff''\<rparr>"

definition near_bottom :: state where
  "near_bottom = (boot 640 0 0)\<lparr>drop_ref := Some low_drop, lastTime := 576\<rparr>"

text \<open>A run that has just started, with the drop put below the play area.\<close>

definition deep_drop :: drop where
  "deep_drop =
     \<lparr>drop_x = 110, drop_y = 700, drop_r = 14, drop_vy = 0, drop_color = ''#3fe6ff''\<rparr>"

definition fallen_out :: state where
  "fallen_out = (boot 640 0 0)\<lparr>drop_ref := Some deep_drop\<rparr>"

text \<open>The drop as \<open>reset\<close> creates it on a canvas of height 640.\<close>

definition fresh_drop :: drop where
  "fresh_drop =
     \<lparr>drop_x = 110, drop_y = 320, drop_r = 14, drop_vy = 0, drop_color = ''#3fe6ff''\<rparr>"

text \<open>A run with one obstacle whose trailing edge is about to pass the drop.\<close>

definition one_pipe :: state where
  "one_pipe =
     (boot 640 0 0)
       \<lparr>obstacles := [\<lparr>ob_x = 13, ob_w = 84, ob_gapY = 250, ob_gapH = 140,
                        ob_scored = False, ob_type = ''pipe''\<rparr>]\<rparr>"

text \<open>A run with one scored obstacle about to leave the screen, and one in front.\<close>

definition two_pipes :: state where
  "two_pipes =
     (boot 640 0 0)
       \<lparr>obstacles := [\<lparr>ob_x = - 133, ob_w = 84, ob_gapY = 250, ob_gapH = 140,
                        ob_scored = True, ob_type = ''pipe''\<rparr>,
                      \<lparr>ob_x = 300, ob_w = 84, ob_gapY = 250, ob_gapH = 140,
                        ob_scored = False, ob_type = ''pipe''\<rparr>],
        score := 1\<rparr>"

section \<open>Properties\<close>

subsection \<open>The movement loop as a filter over the moved obstacles\<close>

lemma move_body_eq:
  assumes "obstacles s = pre @ ob # post"
  shows "move_body d (length pre) s =
     s\<lparr>obstacles := pre @ survivors (speed s) d [ob] @ post,
       score := score s + gained (speed s) d [ob],
       scoreUI_text := (if gained (speed s) d [ob] = 0 then scoreUI_text s
                        else score_label (score s + gained (speed s) d [ob]))\<rparr>"
  using assms
  by (simp add: move_body_def Let_def splice1_def survivors_def gained_def moved_def
      offscreen_def newly_scored_def passed_def nth_append list_update_append)

lemma move_loop_eq:
  "obstacles s = pre @ post \<Longrightarrow>
   move_loop d (length pre) s =
     s\<lparr>obstacles := survivors (speed s) d pre @ post,
       score := score s + gained (speed s) d pre,
       scoreUI_text := (if gained (speed s) d pre = 0 then scoreUI_text s
                        else score_label (score s + gained (speed s) d pre))\<rparr>"
proof (induction pre arbitrary: s post rule: rev_induct)
  case Nil
  then show ?case by (simp add: survivors_def gained_def)
next
  case (snoc ob pre)
  let ?s1 = "move_body d (length pre) s"
  have b: "?s1 = s\<lparr>obstacles := pre @ survivors (speed s) d [ob] @ post,
       score := score s + gained (speed s) d [ob],
       scoreUI_text := (if gained (speed s) d [ob] = 0 then scoreUI_text s
                        else score_label (score s + gained (speed s) d [ob]))\<rparr>"
    using snoc.prems by (simp add: move_body_eq)
  have o: "obstacles ?s1 = pre @ (survivors (speed s) d [ob] @ post)"
    by (simp add: b)
  have "move_loop d (length (pre @ [ob])) s = move_loop d (length pre) ?s1"
    by simp
  also have "\<dots> = ?s1\<lparr>obstacles := survivors (speed ?s1) d pre @ (survivors (speed s) d [ob] @ post),
       score := score ?s1 + gained (speed ?s1) d pre,
       scoreUI_text := (if gained (speed ?s1) d pre = 0 then scoreUI_text ?s1
                        else score_label (score ?s1 + gained (speed ?s1) d pre))\<rparr>"
    by (rule snoc.IH [OF o])
  also have "\<dots> = s\<lparr>obstacles := survivors (speed s) d (pre @ [ob]) @ post,
       score := score s + gained (speed s) d (pre @ [ob]),
       scoreUI_text := (if gained (speed s) d (pre @ [ob]) = 0 then scoreUI_text s
                        else score_label (score s + gained (speed s) d (pre @ [ob])))\<rparr>"
    by (simp add: b survivors_def gained_def add.commute)
  finally show ?case .
qed

lemma move_obstacles_eq:
  "move_obstacles d s =
     s\<lparr>obstacles := survivors (speed s) d (obstacles s),
       score := score s + gained (speed s) d (obstacles s),
       scoreUI_text := (if gained (speed s) d (obstacles s) = 0 then scoreUI_text s
                        else score_label (score s + gained (speed s) d (obstacles s)))\<rparr>"
  using move_loop_eq [of s "obstacles s" "[]" d] by (simp add: move_obstacles_def)

subsection \<open>The spawn phase\<close>

lemma spawn_phase_fields:
  "obstacles (spawn_phase W H rnd now s) = obstacles s @ spawned W H rnd now s"
  "speed (spawn_phase W H rnd now s) = drifted_speed rnd now s"
  "spawnInterval (spawn_phase W H rnd now s) =
     (if spawn_gate now s \<and> u_interval rnd < 0.07 then max 900 (spawnInterval s - 20)
      else spawnInterval s)"
  "score (spawn_phase W H rnd now s) = score s"
  "running (spawn_phase W H rnd now s) = running s"
  "drop_ref (spawn_phase W H rnd now s) = drop_ref s"
  by (simp_all add: spawn_phase_def spawnObstacle_def spawned_def drifted_speed_def Let_def)

lemma spawn_gate_drop [simp]: "spawn_gate now (s\<lparr>drop_ref := r\<rparr>) = spawn_gate now s"
  by (simp add: spawn_gate_def)

lemma spawned_drop [simp]: "spawned W H rnd now (s\<lparr>drop_ref := r\<rparr>) = spawned W H rnd now s"
  by (simp add: spawned_def)

lemma drifted_speed_drop [simp]: "drifted_speed rnd now (s\<lparr>drop_ref := r\<rparr>) = drifted_speed rnd now s"
  by (simp add: drifted_speed_def)

subsection \<open>One frame of a run\<close>

lemma update_running:
  assumes "running s" and "drop_ref s = Some d0"
  shows "\<exists>s'. update W H rnd dt now s = Inr s' \<and>
     drop_ref s' = Some (integrate d0) \<and>
     obstacles s' =
       survivors (drifted_speed rnd now s) (integrate d0) (obstacles s @ spawned W H rnd now s) \<and>
     score s' =
       score s + gained (drifted_speed rnd now s) (integrate d0) (obstacles s @ spawned W H rnd now s) \<and>
     speed s' = drifted_speed rnd now s \<and>
     spawnInterval s' =
       (if spawn_gate now s \<and> u_interval rnd < 0.07 then max 900 (spawnInterval s - 20)
        else spawnInterval s) \<and>
     running s' =
       (\<not> hits_pipe H (integrate d0) (obstacles s') \<and> \<not> out_of_bounds H (integrate d0)) \<and>
     (\<not> running s' \<longrightarrow>
        gameover_text s' = gameover_message (score s') \<and> overlay_display s' = ''flex'')"
proof -
  let ?d = "integrate d0"
  let ?s2 = "spawn_phase W H rnd now (s\<lparr>drop_ref := Some ?d\<rparr>)"
  let ?s3 = "move_obstacles ?d ?s2"
  have u: "update W H rnd dt now s =
      (if hits_pipe H ?d (obstacles ?s3) \<or> out_of_bounds H ?d then Inr (endGame ?s3)
       else Inr ?s3)"
    using assms by (simp add: update_def Let_def)
  have f: "drop_ref ?s3 = Some ?d"
    "obstacles ?s3 =
       survivors (drifted_speed rnd now s) ?d (obstacles s @ spawned W H rnd now s)"
    "score ?s3 =
       score s + gained (drifted_speed rnd now s) ?d (obstacles s @ spawned W H rnd now s)"
    "speed ?s3 = drifted_speed rnd now s"
    "spawnInterval ?s3 =
       (if spawn_gate now s \<and> u_interval rnd < 0.07 then max 900 (spawnInterval s - 20)
        else spawnInterval s)"
    "running ?s3"
    using assms by (simp_all add: move_obstacles_eq spawn_phase_fields)
  show ?thesis
  proof (cases "hits_pipe H ?d (obstacles ?s3) \<or> out_of_bounds H ?d")
    case True
    then have "update W H rnd dt now s = Inr (endGame ?s3)"
      using u by simp
    moreover have "obstacles (endGame ?s3) = obstacles ?s3" "\<not> running (endGame ?s3)"
      "drop_ref (endGame ?s3) = drop_ref ?s3" "score (endGame ?s3) = score ?s3"
      "speed (endGame ?s3) = speed ?s3" "spawnInterval (endGame ?s3) = spawnInterval ?s3"
      "gameover_text (endGame ?s3) = gameover_message (score ?s3)"
      "overlay_display (endGame ?s3) = ''flex''"
      by (simp_all add: endGame_def)
    ultimately show ?thesis
      using True f by (intro exI [of _ "endGame ?s3"]) (simp only: simp_thms, simp)
  next
    case False
    then have "update W H rnd dt now s = Inr ?s3"
      using u by simp
    then show ?thesis
      using False f by (intro exI [of _ ?s3]) (simp only: simp_thms, simp)
  qed
qed

subsection \<open>Events never meet a null drop\<close>

lemma exec_total:
  assumes "drop_ref s \<noteq> None"
  shows "\<exists>s'. exec W H ev s = Inr s' \<and> drop_ref s' \<noteq> None"
proof (cases ev)
  case (Frame rnd now)
  obtain d0 where d0: "drop_ref s = Some d0"
    using assms by auto
  show ?thesis
  proof (cases "running s")
    case True
    from update_running [OF True d0, of W H rnd "(now - lastTime s) / 1000" now]
    obtain s1 where "update W H rnd ((now - lastTime s) / 1000) now s = Inr s1"
      and "drop_ref s1 = Some (integrate d0)"
      by blast
    then show ?thesis
      using Frame by (simp add: loop_def)
  next
    case False
    then show ?thesis
      using Frame d0 by (simp add: loop_def update_def)
  qed
next
  case (Activate t1 t2)
  then show ?thesis
    using assms by (auto simp: flap_def reset_def)
next
  case (Restart t1 t2)
  then show ?thesis
    by (simp add: reset_def)
qed

lemma execs_total:
  "drop_ref s \<noteq> None \<Longrightarrow> \<exists>s'. execs W H evs s = Inr s' \<and> drop_ref s' \<noteq> None"
proof (induction evs arbitrary: s)
  case Nil
  then show ?case by simp
next
  case (Cons ev evs)
  from exec_total [OF Cons.prems, of W H ev]
  obtain s1 where s1: "exec W H ev s = Inr s1" "drop_ref s1 \<noteq> None"
    by blast
  from Cons.IH [OF s1(2)] show ?case
    using s1(1) by simp
qed

lemma boot_drop: "drop_ref (boot H t1 t2) \<noteq> None"
  by (simp add: boot_def reset_def)

text \<open>What a frame does to a state, whether a run is on or not.\<close>

lemma loop_cases:
  assumes "loop W H rnd now s = Inr s'"
  shows "(\<not> running s \<and> s' = s\<lparr>lastTime := now\<rparr>) \<or>
     (\<exists>d0 s1. running s \<and> drop_ref s = Some d0 \<and>
        update W H rnd ((now - lastTime s) / 1000) now s = Inr s1 \<and>
        s' = s1\<lparr>lastTime := now\<rparr>)"
proof (cases "running s")
  case False
  then show ?thesis
    using assms by (simp add: loop_def update_def split: option.splits)
next
  case True
  then obtain d0 where "drop_ref s = Some d0"
    using assms by (cases "drop_ref s") (simp_all add: loop_def update_def)
  then show ?thesis
    using assms True by (auto simp: loop_def Let_def split: sum.splits option.splits)
qed

subsection \<open>The physics step outside a run\<close>

text \<open>
  C7.  When \<open>running\<close> is false, \<open>update\<close> returns at once: the state after the call
  is the state before it, in every field (drop, obstacles, score, speed, spawn
  interval, spawn timer, running flag and the texts shown).
\<close>

theorem update_idle_noop:
  "\<not> running s \<Longrightarrow> update W H rnd dt now s = Inr s"
  by (simp add: update_def)

theorem update_idle_noop_witness:
  "\<not> running initial \<and> update 480 640 calm 0 16 initial = Inr initial"
  using update_idle_noop [of initial 480 640 calm 0 16] by (simp add: initial_def)

subsection \<open>The activate action during a run\<close>

text \<open>
  C5.  During a run (the drop exists), \<open>flap\<close> sets the vertical velocity of the drop
  to -8.8 whatever it was, and changes nothing else: the state after the call is the
  state before it with that one field of the drop replaced.  In particular the
  position of the drop, the score, the obstacles, the speed and the spawn interval
  are the same.
\<close>

theorem flap_running:
  assumes "running s" and "drop_ref s = Some d"
  shows "\<exists>s' d'. flap H t1 t2 s = Inr s' \<and> drop_ref s' = Some d' \<and>
     s' = s\<lparr>drop_ref := Some (d\<lparr>drop_vy := - 8.8\<rparr>)\<rparr> \<and>
     drop_vy d' = - 8.8 \<and> drop_x d' = drop_x d \<and> drop_y d' = drop_y d \<and>
     drop_r d' = drop_r d \<and> score s' = score s \<and> obstacles s' = obstacles s \<and>
     speed s' = speed s \<and> spawnInterval s' = spawnInterval s \<and> running s'"
  using assms by (simp add: flap_def lift_def)

theorem flap_running_witness:
  "running near_bottom \<and> drop_ref near_bottom = Some low_drop \<and> drop_vy low_drop = 16.2 \<and>
   flap 640 600 600 near_bottom =
     Inr (near_bottom\<lparr>drop_ref :=
       Some \<lparr>drop_x = 110, drop_y = 619.7, drop_r = 14, drop_vy = - 8.8,
             drop_color = ''#3fe6ff''\<rparr>\<rparr>)"
proof -
  have r: "running near_bottom"
    by (simp add: near_bottom_def boot_def reset_def)
  have d: "drop_ref near_bottom = Some low_drop"
    by (simp add: near_bottom_def)
  from flap_running [OF r d, of 640 600 600] show ?thesis
    using r d by (auto simp: low_drop_def)
qed

subsection \<open>The collision test\<close>

lemma clamp_into_max_min: "lo \<le> hi \<Longrightarrow> max lo (min v hi) = clamp_into lo hi v"
  by (simp add: clamp_into_def max_def min_def)

lemma clamp_into_nearest:
  assumes "lo \<le> p" and "p \<le> hi"
  shows "(v - clamp_into lo hi v)\<^sup>2 \<le> (v - p)\<^sup>2"
proof -
  have "\<bar>v - clamp_into lo hi v\<bar> \<le> \<bar>v - p\<bar>"
    using assms by (simp add: clamp_into_def)
  then show ?thesis
    by (simp only: abs_le_square_iff)
qed

lemma clamped_point_nearest:
  assumes "0 \<le> rw" and "0 \<le> rh"
  shows "in_rect (clamp_into rx (rx + rw) cx) (clamp_into ry (ry + rh) cy) rx ry rw rh"
    and "in_rect px py rx ry rw rh \<Longrightarrow>
         sq_dist_clamped cx cy rx ry rw rh \<le> (cx - px)\<^sup>2 + (cy - py)\<^sup>2"
proof -
  show "in_rect (clamp_into rx (rx + rw) cx) (clamp_into ry (ry + rh) cy) rx ry rw rh"
    using assms by (simp add: in_rect_def clamp_into_def)
next
  assume "in_rect px py rx ry rw rh"
  then have "(cx - clamp_into rx (rx + rw) cx)\<^sup>2 \<le> (cx - px)\<^sup>2"
    and "(cy - clamp_into ry (ry + rh) cy)\<^sup>2 \<le> (cy - py)\<^sup>2"
    by (simp_all add: in_rect_def clamp_into_nearest)
  then show "sq_dist_clamped cx cy rx ry rw rh \<le> (cx - px)\<^sup>2 + (cy - py)\<^sup>2"
    by (simp add: sq_dist_clamped_def add_mono)
qed

text \<open>
  C3.  For a rectangle of width \<open>rw \<ge> 0\<close> and height \<open>rh \<ge> 0\<close>, the test is true
  exactly when the squared distance from the centre to the centre clamped into
  \<open>[rx, rx + rw] \<times> [ry, ry + rh]\<close> is at most \<open>r\<^sup>2\<close>.  The drop (110, 100, r = 14)
  touches the rectangle (100, 0, 84, 90), and touches neither rectangle of an obstacle
  with gap top 50 and gap height 140, wherever the obstacle is and whatever the height of
  the play area.
\<close>

theorem circleRect_clamp:
  "(0 \<le> rw \<and> 0 \<le> rh \<longrightarrow>
      circleRectColliding cx cy r rx ry rw rh = (sq_dist_clamped cx cy rx ry rw rh \<le> r\<^sup>2)) \<and>
   circleRectColliding 110 100 14 100 0 84 90 \<and>
   \<not> hits_top \<lparr>drop_x = 110, drop_y = 100, drop_r = 14, drop_vy = vy, drop_color = c\<rparr>
         \<lparr>ob_x = ox, ob_w = ow, ob_gapY = 50, ob_gapH = 140, ob_scored = sc, ob_type = ty\<rparr> \<and>
   \<not> hits_bottom H \<lparr>drop_x = 110, drop_y = 100, drop_r = 14, drop_vy = vy, drop_color = c\<rparr>
         \<lparr>ob_x = ox, ob_w = ow, ob_gapY = 50, ob_gapH = 140, ob_scored = sc, ob_type = ty\<rparr>"
proof (intro conjI impI)
  assume "0 \<le> rw \<and> 0 \<le> rh"
  then have "max rx (min cx (rx + rw)) = clamp_into rx (rx + rw) cx"
    and "max ry (min cy (ry + rh)) = clamp_into ry (ry + rh) cy"
    by (simp_all add: clamp_into_max_min)
  then show "circleRectColliding cx cy r rx ry rw rh = (sq_dist_clamped cx cy rx ry rw rh \<le> r\<^sup>2)"
    by (simp add: circleRectColliding_def sq_dist_clamped_def power2_eq_square Let_def)
next
  show "circleRectColliding 110 100 14 100 0 84 90"
    by (simp add: circleRectColliding_def)
next
  have "\<not> dx * dx + 50 * 50 \<le> (14::real) * 14" for dx
  proof -
    have "(0::real) \<le> dx * dx" by simp
    then show ?thesis by linarith
  qed
  then show "\<not> hits_top \<lparr>drop_x = 110, drop_y = 100, drop_r = 14, drop_vy = vy, drop_color = c\<rparr>
         \<lparr>ob_x = ox, ob_w = ow, ob_gapY = 50, ob_gapH = 140, ob_scored = sc, ob_type = ty\<rparr>"
    by (simp add: hits_top_def circleRectColliding_def)
next
  have "\<not> dx * dx + 90 * 90 \<le> (14::real) * 14" for dx
  proof -
    have "(0::real) \<le> dx * dx" by simp
    then show ?thesis by linarith
  qed
  then show "\<not> hits_bottom H \<lparr>drop_x = 110, drop_y = 100, drop_r = 14, drop_vy = vy, drop_color = c\<rparr>
         \<lparr>ob_x = ox, ob_w = ow, ob_gapY = 50, ob_gapH = 140, ob_scored = sc, ob_type = ty\<rparr>"
    by (simp add: hits_bottom_def circleRectColliding_def max_def min_def)
qed

theorem circleRect_clamp_witness:
  "(0::real) \<le> 84 \<and> (0::real) \<le> 90 \<and>
   circleRectColliding 110 100 14 100 0 84 90 \<and>
   sq_dist_clamped 110 100 100 0 84 90 = 100 \<and>
   clamp_into 100 (100 + 84) 110 = 110 \<and> clamp_into 0 (0 + 90) 100 = 90"
proof -
  have "circleRectColliding 110 100 14 100 0 84 90 = (sq_dist_clamped 110 100 100 0 84 90 \<le> 14\<^sup>2)"
    using circleRect_clamp [of 84 90 110 100 14 100 0] by simp
  moreover have "sq_dist_clamped 110 100 100 0 84 90 = 100"
    by (simp add: sq_dist_clamped_def clamp_into_def)
  ultimately show ?thesis
    by (simp add: clamp_into_def)
qed

subsection \<open>The gap of a new obstacle\<close>

lemma gap_top_bounds:
  assumes "320 \<le> H" and "unit_draw u"
  shows "gap_top H u \<in> \<int>" and "90 \<le> gap_top H u" and "gap_top H u + 140 \<le> real H - 90"
proof -
  define n :: int where "n = int H - 319"
  have n: "1 \<le> n" "real_of_int n = real H - 90 - 140 - 90 + 1"
    using assms(1) by (simp_all add: n_def)
  have g: "gap_top H u = real_of_int \<lfloor>u * real_of_int n\<rfloor> + 90"
    by (simp add: gap_top_def n)
  have "0 \<le> u * real_of_int n"
    using assms(2) n(1) by (simp add: unit_draw_def)
  then have lo: "0 \<le> \<lfloor>u * real_of_int n\<rfloor>"
    by simp
  have "u * real_of_int n < real_of_int n"
    using assms(2) n(1) by (simp add: unit_draw_def)
  then have "\<lfloor>u * real_of_int n\<rfloor> < n"
    by (simp add: floor_less_iff)
  then have hi: "\<lfloor>u * real_of_int n\<rfloor> \<le> n - 1"
    by simp
  show "gap_top H u \<in> \<int>"
    by (simp add: g)
  show "90 \<le> gap_top H u"
    using lo by (simp add: g)
  have "real_of_int \<lfloor>u * real_of_int n\<rfloor> \<le> real_of_int (n - 1)"
    using hi by (simp only: of_int_le_iff)
  then show "gap_top H u + 140 \<le> real H - 90"
    using n(2) by (simp add: g)
qed

lemma new_obstacle_gap_ok: "320 \<le> H \<Longrightarrow> unit_draw u \<Longrightarrow> gap_ok H (new_obstacle W H u)"
  by (simp add: gap_ok_def new_obstacle_def gap_top_bounds)

lemma moved_gap_ok [simp]: "gap_ok H (moved v d ob) = gap_ok H ob"
  by (simp add: gap_ok_def moved_def Let_def)

lemma survivors_gap_ok:
  "\<forall>ob\<in>set obs. gap_ok H ob \<Longrightarrow> \<forall>ob\<in>set (survivors v d obs). gap_ok H ob"
  by (auto simp: survivors_def)

lemma exec_gap_ok:
  assumes "320 \<le> H" and "valid_event ev" and "exec W H ev s = Inr s'"
    and "\<forall>ob\<in>set (obstacles s). gap_ok H ob"
  shows "\<forall>ob\<in>set (obstacles s'). gap_ok H ob"
proof (cases ev)
  case (Frame rnd now)
  then have l: "loop W H rnd now s = Inr s'"
    using assms(3) by simp
  from loop_cases [OF l] show ?thesis
  proof (elim disjE exE conjE)
    assume "s' = s\<lparr>lastTime := now\<rparr>"
    then show ?thesis using assms(4) by simp
  next
    fix d0 s1
    assume r: "running s" "drop_ref s = Some d0"
      and u: "update W H rnd ((now - lastTime s) / 1000) now s = Inr s1"
      and s': "s' = s1\<lparr>lastTime := now\<rparr>"
    from update_running [OF r, of W H rnd "(now - lastTime s) / 1000" now] u
    have o: "obstacles s1 =
       survivors (drifted_speed rnd now s) (integrate d0) (obstacles s @ spawned W H rnd now s)"
      by auto
    have "\<forall>ob\<in>set (spawned W H rnd now s). gap_ok H ob"
      using assms(1,2) Frame by (simp add: spawned_def new_obstacle_gap_ok)
    then have "\<forall>ob\<in>set (obstacles s @ spawned W H rnd now s). gap_ok H ob"
      using assms(4) by auto
    then have "\<forall>ob\<in>set (obstacles s1). gap_ok H ob"
      unfolding o by (rule survivors_gap_ok)
    then show ?thesis
      by (simp add: s')
  qed
next
  case (Activate t1 t2)
  then show ?thesis
    using assms(3,4) by (auto simp: flap_def reset_def split: if_splits option.splits)
next
  case (Restart t1 t2)
  then show ?thesis
    using assms(3) by (auto simp: reset_def)
qed

lemma execs_gap_ok:
  assumes "320 \<le> H"
  shows "list_all valid_event evs \<Longrightarrow> execs W H evs s = Inr s' \<Longrightarrow>
    \<forall>ob\<in>set (obstacles s). gap_ok H ob \<Longrightarrow> \<forall>ob\<in>set (obstacles s'). gap_ok H ob"
proof (induction evs arbitrary: s)
  case Nil
  then show ?case by simp
next
  case (Cons ev evs)
  from Cons.prems(2) obtain s1 where s1: "exec W H ev s = Inr s1" "execs W H evs s1 = Inr s'"
    by (auto split: sum.splits)
  have "\<forall>ob\<in>set (obstacles s1). gap_ok H ob"
    using exec_gap_ok [OF assms _ s1(1) Cons.prems(3)] Cons.prems(1) by simp
  then show ?case
    using Cons.IH [OF _ s1(2)] Cons.prems(1) by simp
qed

text \<open>No gap satisfies the bound on a play area lower than 320.\<close>

lemma gap_ok_needs_height: "gap_ok H ob \<Longrightarrow> 320 \<le> H"
  by (simp add: gap_ok_def)

text \<open>
  C4, as stated, fails.  Nothing in the script bounds the height of the canvas from
  below.  On a 480 x 300 canvas the draw 0.5 gives the gap top
  \<open>\<lfloor>0.5 * (70 - 90 + 1)\<rfloor> + 90 = 80\<close>, below the margin 90, and the first frame after
  time 1400 of the first run puts that obstacle into the collection.
\<close>

theorem spawn_gap_counterexample:
  "unit_draw 0.5 \<and> valid_event (Frame calm 1401) \<and>
   ob_gapY (new_obstacle 480 300 0.5) = 80 \<and>
   \<not> 90 \<le> ob_gapY (new_obstacle 480 300 0.5) \<and>
   \<not> ob_gapY (new_obstacle 480 300 0.5) + ob_gapH (new_obstacle 480 300 0.5) \<le> real 300 - 90 \<and>
   gaps_after (execs 480 300 [Frame calm 1401] (boot 300 0 0)) = [80]"
proof -
  have u: "unit_draw 0.5" "valid_event (Frame calm 1401)"
    by (simp_all add: unit_draw_def calm_def)
  have g: "ob_gapY (new_obstacle 480 300 0.5) = 80"
    "ob_gapH (new_obstacle 480 300 0.5) = 140"
    by (simp_all add: new_obstacle_def gap_top_def)
  have n: "\<not> 90 \<le> ob_gapY (new_obstacle 480 300 0.5)"
    "\<not> ob_gapY (new_obstacle 480 300 0.5) + ob_gapH (new_obstacle 480 300 0.5) \<le> real 300 - 90"
    unfolding g by simp_all
  have f: "gaps_after (execs 480 300 [Frame calm 1401] (boot 300 0 0)) = [80]"
    by (simp add: gaps_after_def calm_def boot_def reset_def initial_def loop_def update_def
        integrate_def gravity_def spawn_phase_def spawn_gate_def spawnObstacle_def
        new_obstacle_def gap_top_def move_obstacles_def move_body_def splice1_def
        out_of_bounds_def hits_top_def hits_bottom_def circleRectColliding_def endGame_def
        score_label_def Let_def)
  show ?thesis
    by (intro conjI) (fact u g(1) n f)+
qed

text \<open>
  C4, amended.  On a play area of height at least 320 (so that the interval from 90 to
  \<open>H - 230\<close> has a point), for every draw \<open>u\<close> of \<open>Math.random()\<close> the obstacle that
  \<open>spawnObstacle\<close> appends has an integer gap top with \<open>90 \<le> gapY\<close> and
  \<open>gapY + gapH \<le> H - 90\<close>, where \<open>gapH = 140\<close>; and after any sequence of frames,
  activate actions and restarts from the start of the program, every obstacle of the
  collection satisfies the same bound.
\<close>

theorem spawn_gap_bounds:
  assumes "320 \<le> H" and "unit_draw u" and "list_all valid_event evs"
  shows "obstacles (spawnObstacle W H u now s) = obstacles s @ [new_obstacle W H u] \<and>
     ob_gapY (new_obstacle W H u) \<in> \<int> \<and>
     90 \<le> ob_gapY (new_obstacle W H u) \<and>
     ob_gapY (new_obstacle W H u) + ob_gapH (new_obstacle W H u) \<le> real H - 90 \<and>
     ob_gapH (new_obstacle W H u) = 140 \<and>
     (\<exists>s'. execs W H evs (boot H t1 t2) = Inr s' \<and> (\<forall>ob\<in>set (obstacles s'). gap_ok H ob))"
proof -
  have "gap_ok H (new_obstacle W H u)"
    using assms(1,2) by (rule new_obstacle_gap_ok)
  moreover obtain s' where s': "execs W H evs (boot H t1 t2) = Inr s'"
    using execs_total [OF boot_drop] by blast
  moreover have "\<forall>ob\<in>set (obstacles s'). gap_ok H ob"
    using execs_gap_ok [OF assms(1,3) s'] by (simp add: boot_def reset_def)
  ultimately show ?thesis
    by (auto simp: gap_ok_def spawnObstacle_def)
qed

theorem spawn_gap_bounds_witness:
  "(320::nat) \<le> 640 \<and> unit_draw 0.5 \<and> list_all valid_event [Frame calm 1401, Frame calm 1417] \<and>
   ob_gapY (new_obstacle 480 640 0.5) = 250 \<and>
   (\<exists>s'. execs 480 640 [Frame calm 1401, Frame calm 1417] (boot 640 0 0) = Inr s' \<and>
      map ob_gapY (obstacles s') = [250] \<and> list_all (gap_ok 640) (obstacles s'))"
proof -
  have h: "(320::nat) \<le> 640" "unit_draw 0.5" "list_all valid_event [Frame calm 1401, Frame calm 1417]"
    by (simp_all add: unit_draw_def calm_def)
  have g: "ob_gapY (new_obstacle 480 640 0.5) = 250"
    by (simp add: new_obstacle_def gap_top_def)
  from spawn_gap_bounds [OF h, of 480 0 initial 0 0]
  obtain s' where s': "execs 480 640 [Frame calm 1401, Frame calm 1417] (boot 640 0 0) = Inr s'"
    and ok: "\<forall>ob\<in>set (obstacles s'). gap_ok 640 ob"
    by blast
  have "execs 480 640 [Frame calm 1401, Frame calm 1417] (boot 640 0 0) =
      Inr ((boot 640 0 0)\<lparr>drop_ref := Some (integrate (integrate
              \<lparr>drop_x = 110, drop_y = 320, drop_r = 14, drop_vy = 0, drop_color = ''#3fe6ff''\<rparr>)),
            obstacles := [moved 2.2 \<lparr>drop_x = 110, drop_y = 320, drop_r = 14, drop_vy = 0, drop_color = ''#3fe6ff''\<rparr>
               (moved 2.2 \<lparr>drop_x = 110, drop_y = 320, drop_r = 14, drop_vy = 0, drop_color = ''#3fe6ff''\<rparr> (new_obstacle 480 640 0.5))],
            lastSpawn := 1401, lastTime := 1417\<rparr>)"
    by (simp add: boot_def reset_def initial_def loop_def update_def
     integrate_def gravity_def spawn_phase_def spawn_gate_def move_obstacles_def out_of_bounds_def calm_def
     score_label_def Let_def spawnObstacle_def new_obstacle_def gap_top_def move_body_def moved_def
     hits_top_def hits_bottom_def circleRectColliding_def)
  then have "map ob_gapY (obstacles s') = [250]"
    using s' by (auto simp: moved_def new_obstacle_def gap_top_def Let_def)
  then show ?thesis
    using h g s' ok by (auto simp: list_all_iff)
qed

subsection \<open>The boundary of the play area\<close>

text \<open>The definitions that evaluate a frame on a concrete state.\<close>

lemmas frame_eval =
  boot_def reset_def initial_def loop_def update_def integrate_def gravity_def
  spawn_phase_def spawn_gate_def spawnObstacle_def new_obstacle_def gap_top_def
  move_obstacles_def move_body_def splice1_def out_of_bounds_def hits_top_def
  hits_bottom_def circleRectColliding_def endGame_def score_label_def Let_def

lemma near_bottom_reached: "execs 480 640 (free_fall 36) (boot 640 0 0) = Inr near_bottom"
  by (simp add: free_fall_def upt_rec near_bottom_def low_drop_def calm_def frame_eval)

text \<open>
  C1, as stated, fails.  36 frames into a run on a 480 x 640 canvas in which the
  player never acts, the next frame takes the lowest point of the drop,
  \<open>y + r = 650.35\<close>, below the bottom edge 640, and the run goes on.
\<close>

theorem boundary_claim_counterexample:
  "execs 480 640 (free_fall 36) (boot 640 0 0) = Inr near_bottom \<and>
   running near_bottom \<and> drop_ref near_bottom = Some low_drop \<and>
   drop_y (integrate low_drop) + drop_r (integrate low_drop) > real 640 \<and>
   running_after (update 480 640 calm 0.016 592 near_bottom)"
proof -
  have "running_after (update 480 640 calm 0.016 592 near_bottom)"
    by (simp add: running_after_def near_bottom_def low_drop_def calm_def frame_eval)
  moreover have "drop_y (integrate low_drop) + drop_r (integrate low_drop) > real 640"
    by (simp add: low_drop_def integrate_def gravity_def)
  moreover have "running near_bottom" "drop_ref near_bottom = Some low_drop"
    by (simp_all add: near_bottom_def boot_def reset_def)
  ultimately show ?thesis
    using near_bottom_reached by simp
qed

text \<open>
  C1, amended.  In every frame of a run, if after the integration the drop is wholly
  outside the play area, that is its highest point \<open>y - r\<close> is below the bottom edge
  \<open>H\<close> or its lowest point \<open>y + r\<close> is above the top edge 0, the physics step ends the
  run: \<open>running\<close> is false, the overlay is shown and the message carries the score.
\<close>

theorem boundary_ends_run:
  assumes "running s" and "drop_ref s = Some d0"
    and "drop_y (integrate d0) - drop_r (integrate d0) > real H \<or>
         drop_y (integrate d0) + drop_r (integrate d0) < 0"
  shows "\<exists>s'. update W H rnd dt now s = Inr s' \<and> \<not> running s' \<and>
     gameover_text s' = gameover_message (score s') \<and> overlay_display s' = ''flex''"
proof -
  from update_running [OF assms(1,2), of W H rnd dt now]
  obtain s' where s': "update W H rnd dt now s = Inr s'"
    and r: "running s' =
       (\<not> hits_pipe H (integrate d0) (obstacles s') \<and> \<not> out_of_bounds H (integrate d0))"
    and e: "\<not> running s' \<longrightarrow>
       gameover_text s' = gameover_message (score s') \<and> overlay_display s' = ''flex''"
    by blast
  have "out_of_bounds H (integrate d0)"
    using assms(3) by (simp add: out_of_bounds_def)
  then have "\<not> running s'"
    using r by simp
  then show ?thesis
    using s' e by blast
qed

theorem boundary_ends_run_witness:
  "running fallen_out \<and> drop_ref fallen_out = Some deep_drop \<and>
   drop_y (integrate deep_drop) - drop_r (integrate deep_drop) > real 640 \<and>
   (\<exists>s'. update 480 640 calm 0.016 16 fallen_out = Inr s' \<and> \<not> running s' \<and> score s' = 0 \<and>
      gameover_text s' = ''You delivered water to 0 people. Real clean water lasts a lifetime.'' \<and>
      overlay_display s' = ''flex'')"
proof -
  have h: "running fallen_out" "drop_ref fallen_out = Some deep_drop"
    "drop_y (integrate deep_drop) - drop_r (integrate deep_drop) > real 640 \<or>
     drop_y (integrate deep_drop) + drop_r (integrate deep_drop) < 0"
    by (simp_all add: fallen_out_def deep_drop_def boot_def reset_def integrate_def gravity_def)
  from boundary_ends_run [OF h, of 480 calm "0.016" 16]
  obtain s' where s': "update 480 640 calm 0.016 16 fallen_out = Inr s'" "\<not> running s'"
    "gameover_text s' = gameover_message (score s')" "overlay_display s' = ''flex''"
    by blast
  have "spawned 480 640 calm 16 fallen_out = []" "obstacles fallen_out = []"
    "score fallen_out = 0"
    by (simp_all add: fallen_out_def boot_def reset_def initial_def spawned_def spawn_gate_def)
  with update_running [OF h(1,2), of 480 640 calm "0.016" 16] s'(1)
  have "score s' = 0"
    by (auto simp: gained_def)
  moreover have "gameover_message 0 =
      ''You delivered water to 0 people. Real clean water lasts a lifetime.''"
    by (simp add: gameover_message_def nat_to_string.simps [of 0] digit_char_def)
  moreover have "drop_y (integrate deep_drop) - drop_r (integrate deep_drop) > real 640"
    by (simp add: deep_drop_def integrate_def gravity_def)
  ultimately show ?thesis
    using h(1,2) s' by auto
qed

subsection \<open>The frame of a spawn\<close>

lemma survivors_snoc:
  "survivors v d (obs @ [ob]) =
     survivors v d obs @ (if offscreen (moved v d ob) then [] else [moved v d ob])"
  by (simp add: survivors_def)

text \<open>
  C2, as stated, fails.  On a 480 x 640 canvas the first frame after time 1400
  spawns an obstacle at \<open>x = 490\<close>, and at the end of that same frame the obstacle
  is at \<open>x = 487.8\<close>.
\<close>

theorem fresh_obstacle_counterexample:
  "running (boot 640 0 0) \<and> spawn_gate 1401 (boot 640 0 0) \<and>
   obstacles (boot 640 0 0) = [] \<and>
   xs_after (update 480 640 calm 0.016 1401 (boot 640 0 0)) = [487.8] \<and>
   xs_after (update 480 640 calm 0.016 1401 (boot 640 0 0)) \<noteq> [real 480 + 10]"
  by (simp add: xs_after_def calm_def frame_eval)

text \<open>
  C2, amended.  In every frame of a run in which the spawn gate fires, the movement
  loop runs after the spawn over the whole collection, the new obstacle included.
  The new obstacle is therefore moved in the frame that spawns it: at the end of that
  physics step its x is \<open>W + 10 - speed\<close>, for the speed after the drift of that
  frame, and it is the last obstacle of the collection (unless that first move
  takes it off screen, which removes it at once).
\<close>

theorem fresh_obstacle_moved:
  assumes "running s" and "drop_ref s = Some d0" and "spawn_gate now s"
  shows "\<exists>s'. update W H rnd dt now s = Inr s' \<and>
     speed s' = (if u_speed rnd < 0.12 then speed s + 0.05 else speed s) \<and>
     obstacles s' =
       survivors (speed s') (integrate d0) (obstacles s @ [new_obstacle W H (u_gap rnd)]) \<and>
     ob_x (new_obstacle W H (u_gap rnd)) = real W + 10 \<and>
     ob_x (moved (speed s') (integrate d0) (new_obstacle W H (u_gap rnd))) =
       real W + 10 - speed s' \<and>
     (\<not> offscreen (moved (speed s') (integrate d0) (new_obstacle W H (u_gap rnd))) \<longrightarrow>
        obstacles s' \<noteq> [] \<and>
        last (obstacles s') = moved (speed s') (integrate d0) (new_obstacle W H (u_gap rnd)))"
proof -
  from update_running [OF assms(1,2), of W H rnd dt now]
  obtain s' where s': "update W H rnd dt now s = Inr s'"
    and o: "obstacles s' =
       survivors (drifted_speed rnd now s) (integrate d0) (obstacles s @ spawned W H rnd now s)"
    and v: "speed s' = drifted_speed rnd now s"
    by blast
  have v': "speed s' = (if u_speed rnd < 0.12 then speed s + 0.05 else speed s)"
    using v assms(3) by (simp add: drifted_speed_def)
  have o': "obstacles s' =
       survivors (speed s') (integrate d0) (obstacles s @ [new_obstacle W H (u_gap rnd)])"
    using o v assms(3) by (simp add: spawned_def)
  have x: "ob_x (moved (speed s') (integrate d0) (new_obstacle W H (u_gap rnd))) =
       real W + 10 - speed s'"
    by (simp add: moved_def new_obstacle_def Let_def)
  have "obstacles s' \<noteq> [] \<and>
        last (obstacles s') = moved (speed s') (integrate d0) (new_obstacle W H (u_gap rnd))"
    if "\<not> offscreen (moved (speed s') (integrate d0) (new_obstacle W H (u_gap rnd)))"
    using that by (simp add: o' survivors_snoc)
  then show ?thesis
    using s' v' o' x by (intro exI [of _ s']) (simp add: new_obstacle_def)
qed

theorem fresh_obstacle_moved_witness:
  "running (boot 640 0 0) \<and> drop_ref (boot 640 0 0) = Some fresh_drop \<and>
   spawn_gate 1401 (boot 640 0 0) \<and>
   (\<exists>s'. update 480 640 drifting 0.016 1401 (boot 640 0 0) = Inr s' \<and>
      speed s' = 2.25 \<and> map ob_x (obstacles s') = [487.75])"
proof -
  have h: "running (boot 640 0 0)" "drop_ref (boot 640 0 0) = Some fresh_drop"
    "spawn_gate 1401 (boot 640 0 0)"
    by (simp_all add: boot_def reset_def initial_def fresh_drop_def spawn_gate_def)
  from fresh_obstacle_moved [OF h, of 480 640 drifting "0.016"]
  obtain s' where s': "update 480 640 drifting 0.016 1401 (boot 640 0 0) = Inr s'"
    and v: "speed s' = (if u_speed drifting < 0.12 then speed (boot 640 0 0) + 0.05
                        else speed (boot 640 0 0))"
    and o: "obstacles s' = survivors (speed s') (integrate fresh_drop)
       (obstacles (boot 640 0 0) @ [new_obstacle 480 640 (u_gap drifting)])"
    by blast
  have v': "speed s' = 2.25"
    using v by (simp add: drifting_def boot_def reset_def)
  have m: "map ob_x (obstacles s') = [487.75]"
    unfolding o v'
    by (simp add: boot_def reset_def survivors_def moved_def offscreen_def new_obstacle_def
        Let_def)
  show ?thesis
    by (intro conjI exI [of _ s']) (fact h s' v' m)+
qed

subsection \<open>The spawn interval\<close>

lemma exec_interval:
  assumes "exec W H ev s = Inr s'"
  shows "spawnInterval s' =
     (if tightens ev s then max 900 (spawnInterval s - 20) else spawnInterval s)"
proof (cases ev)
  case (Frame rnd now)
  then have l: "loop W H rnd now s = Inr s'"
    using assms by simp
  from loop_cases [OF l] show ?thesis
  proof (elim disjE exE conjE)
    assume "\<not> running s" and "s' = s\<lparr>lastTime := now\<rparr>"
    then show ?thesis
      using Frame by simp
  next
    fix d0 s1
    assume r: "running s" "drop_ref s = Some d0"
      and u: "update W H rnd ((now - lastTime s) / 1000) now s = Inr s1"
      and s': "s' = s1\<lparr>lastTime := now\<rparr>"
    from update_running [OF r, of W H rnd "(now - lastTime s) / 1000" now] u
    have "spawnInterval s1 =
       (if spawn_gate now s \<and> u_interval rnd < 0.07 then max 900 (spawnInterval s - 20)
        else spawnInterval s)"
      by auto
    then show ?thesis
      using Frame r(1) by (simp add: s')
  qed
next
  case (Activate t1 t2)
  then show ?thesis
    using assms by (auto simp: flap_def reset_def split: if_splits option.splits)
next
  case (Restart t1 t2)
  then show ?thesis
    using assms by (auto simp: reset_def)
qed

lemma exec_interval_floor:
  "exec W H ev s = Inr s' \<Longrightarrow> 900 \<le> spawnInterval s \<Longrightarrow> 900 \<le> spawnInterval s'"
  by (simp add: exec_interval)

lemma exec_interval_le:
  "exec W H ev s = Inr s' \<Longrightarrow> 900 \<le> spawnInterval s \<Longrightarrow> spawnInterval s' \<le> spawnInterval s"
  by (simp add: exec_interval)

lemma execs_interval:
  "execs W H evs s = Inr s' \<Longrightarrow> 900 \<le> spawnInterval s \<Longrightarrow>
   900 \<le> spawnInterval s' \<and> spawnInterval s' \<le> spawnInterval s"
proof (induction evs arbitrary: s)
  case Nil
  then show ?case by simp
next
  case (Cons ev evs)
  from Cons.prems(1) obtain s1 where s1: "exec W H ev s = Inr s1" "execs W H evs s1 = Inr s'"
    by (auto split: sum.splits)
  have "900 \<le> spawnInterval s1" "spawnInterval s1 \<le> spawnInterval s"
    using s1(1) Cons.prems(2) by (simp_all add: exec_interval)
  then show ?case
    using Cons.IH [OF s1(2)] by auto
qed

text \<open>
  C8.  The spawn interval is 1400 when the script starts and after the first reset.
  An event changes it in one case only: a frame of a run whose spawn gate fires and
  whose draw for the interval is below 0.07 replaces it by the larger of 900 and the
  interval minus 20.  Hence an interval of at least 900 stays at least 900 under every
  event, and along every sequence of frames, draws, activate actions and restarts from
  the start of the program it is at least 900.  (The draw is uniform on the interval from
  0 to 1, so the condition on the draw has probability 0.07.)
\<close>

theorem spawnInterval_floor:
  "spawnInterval initial = 1400 \<and> spawnInterval (boot H t1 t2) = 1400 \<and>
   (exec W H ev s = Inr s' \<longrightarrow>
      spawnInterval s' =
        (if tightens ev s then max 900 (spawnInterval s - 20) else spawnInterval s)) \<and>
   (900 \<le> spawnInterval s \<and> exec W H ev s = Inr s' \<longrightarrow> 900 \<le> spawnInterval s') \<and>
   (900 \<le> spawnInterval s \<and> execs W H evs s = Inr s' \<longrightarrow> 900 \<le> spawnInterval s') \<and>
   (\<exists>sn. execs W H evs (boot H t1 t2) = Inr sn \<and> 900 \<le> spawnInterval sn)"
proof -
  have b: "spawnInterval (boot H t1 t2) = 1400"
    by (simp add: boot_def reset_def initial_def)
  obtain sn where sn: "execs W H evs (boot H t1 t2) = Inr sn"
    using execs_total [OF boot_drop] by blast
  then have "900 \<le> spawnInterval sn"
    using execs_interval [OF sn] b by simp
  then have "\<exists>sn. execs W H evs (boot H t1 t2) = Inr sn \<and> 900 \<le> spawnInterval sn"
    using sn by blast
  moreover have "spawnInterval initial = 1400"
    by (simp add: initial_def)
  ultimately show ?thesis
    using b exec_interval [of W H ev s s'] execs_interval [of W H evs s s'] by simp
qed

theorem spawnInterval_floor_witness:
  "tightens (Frame drifting 1401) (boot 640 0 0) \<and>
   (\<exists>s'. exec 480 640 (Frame drifting 1401) (boot 640 0 0) = Inr s' \<and> spawnInterval s' = 1380) \<and>
   (\<exists>s'. exec 480 640 (Frame drifting 911) ((boot 640 0 0)\<lparr>spawnInterval := 910\<rparr>) = Inr s' \<and>
      spawnInterval s' = 900)"
proof -
  let ?t = "(boot 640 0 0)\<lparr>spawnInterval := 910\<rparr>"
  obtain s1 where s1: "exec 480 640 (Frame drifting 1401) (boot 640 0 0) = Inr s1"
    using exec_total [OF boot_drop] by blast
  have "drop_ref ?t \<noteq> None"
    by (simp add: boot_def reset_def)
  then obtain s2 where s2: "exec 480 640 (Frame drifting 911) ?t = Inr s2"
    using exec_total by blast
  have t: "tightens (Frame drifting 1401) (boot 640 0 0)" "tightens (Frame drifting 911) ?t"
    by (simp_all add: boot_def reset_def initial_def spawn_gate_def drifting_def)
  have "spawnInterval s1 = 1380"
    using spawnInterval_floor [of 640 0 0 480 "Frame drifting 1401" "boot 640 0 0" s1 "[]"] s1 t
    by (simp add: boot_def reset_def initial_def)
  moreover have "spawnInterval s2 = 900"
    using spawnInterval_floor [of 640 0 0 480 "Frame drifting 911" ?t s2 "[]"] s2 t
    by simp
  ultimately show ?thesis
    using s1 s2 t by blast
qed

subsection \<open>What a reset restores\<close>

text \<open>
  C10.  \<open>reset\<close> sets the speed to 2.2, the score to 0, the drop to its initial state
  and the obstacle collection to empty, and leaves the spawn interval as it was at the
  end of the previous run.  No event raises the spawn interval (once it is at least
  900, as it is from the start of the program): along every sequence of events, over
  any number of runs, it never increases.
\<close>

theorem reset_keeps_spawnInterval:
  "speed (reset H t1 t2 s) = 2.2 \<and> score (reset H t1 t2 s) = 0 \<and>
   drop_ref (reset H t1 t2 s) =
     Some \<lparr>drop_x = 110, drop_y = real H / 2, drop_r = 14, drop_vy = 0,
           drop_color = ''#3fe6ff''\<rparr> \<and>
   obstacles (reset H t1 t2 s) = [] \<and> running (reset H t1 t2 s) \<and>
   spawnInterval (reset H t1 t2 s) = spawnInterval s \<and>
   (900 \<le> spawnInterval s \<and> exec W H ev s = Inr s' \<longrightarrow> spawnInterval s' \<le> spawnInterval s) \<and>
   (900 \<le> spawnInterval s \<and> execs W H evs s = Inr s' \<longrightarrow> spawnInterval s' \<le> spawnInterval s) \<and>
   (execs W H evs1 (boot H b1 b2) = Inr sa \<and> execs W H evs2 sa = Inr sb \<longrightarrow>
      spawnInterval sb \<le> spawnInterval sa \<and> spawnInterval sa \<le> 1400)"
proof -
  have b: "spawnInterval (boot H b1 b2) = 1400"
    by (simp add: boot_def reset_def initial_def)
  have "spawnInterval sb \<le> spawnInterval sa \<and> spawnInterval sa \<le> 1400"
    if a: "execs W H evs1 (boot H b1 b2) = Inr sa" and c: "execs W H evs2 sa = Inr sb"
  proof -
    have "900 \<le> spawnInterval sa \<and> spawnInterval sa \<le> 1400"
      using execs_interval [OF a] b by simp
    then show ?thesis
      using execs_interval [OF c] by simp
  qed
  then show ?thesis
    using exec_interval_le [of W H ev s s'] execs_interval [of W H evs s s']
    by (simp add: reset_def)
qed

theorem reset_keeps_spawnInterval_witness:
  "\<exists>s1 s2. execs 480 640 [Frame drifting 1401] (boot 640 0 0) = Inr s1 \<and>
     speed s1 = 2.25 \<and> spawnInterval s1 = 1380 \<and>
     execs 480 640 [Restart 2000 2000] s1 = Inr s2 \<and>
     speed s2 = 2.2 \<and> spawnInterval s2 = 1380 \<and> score s2 = 0 \<and> obstacles s2 = []"
proof -
  have r: "running (boot 640 0 0)" "drop_ref (boot 640 0 0) = Some fresh_drop"
    by (simp_all add: boot_def reset_def fresh_drop_def)
  from update_running [OF r, of 480 640 drifting "1401 / 1000" 1401]
  obtain s0 where s0: "update 480 640 drifting (1401 / 1000) 1401 (boot 640 0 0) = Inr s0"
    and d: "drop_ref s0 = Some (integrate fresh_drop)"
    and v: "speed s0 = drifted_speed drifting 1401 (boot 640 0 0)"
    and i: "spawnInterval s0 =
       (if spawn_gate 1401 (boot 640 0 0) \<and> u_interval drifting < 0.07
        then max 900 (spawnInterval (boot 640 0 0) - 20) else spawnInterval (boot 640 0 0))"
    by blast
  let ?s1 = "s0\<lparr>lastTime := 1401\<rparr>"
  let ?s2 = "reset 640 2000 2000 ?s1"
  have e1: "execs 480 640 [Frame drifting 1401] (boot 640 0 0) = Inr ?s1"
    using s0 d by (simp add: loop_def boot_def reset_def initial_def)
  have e2: "execs 480 640 [Restart 2000 2000] ?s1 = Inr ?s2"
    by simp
  have v1: "speed ?s1 = 2.25" and i1: "spawnInterval ?s1 = 1380"
    using v i
    by (simp_all add: drifted_speed_def spawn_gate_def drifting_def boot_def reset_def
        initial_def)
  have f: "speed ?s2 = 2.2" "spawnInterval ?s2 = spawnInterval ?s1" "score ?s2 = 0"
    "obstacles ?s2 = []"
    using reset_keeps_spawnInterval
      [of 640 2000 2000 ?s1 480 "Restart 2000 2000" ?s2 "[Frame drifting 1401]"
          "[Frame drifting 1401]" 0 0 ?s1 "[Restart 2000 2000]" ?s2]
    by simp_all
  show ?thesis
    by (intro exI [of _ ?s1] exI [of _ ?s2] conjI) (simp_all only: e1 e2 v1 i1 f)
qed

subsection \<open>Obstacles that leave the screen\<close>

lemma survivors_onscreen: "ob \<in> set (survivors v d obs) \<Longrightarrow> \<not> offscreen ob"
  by (simp add: survivors_def)

lemma exec_onscreen:
  assumes "exec W H ev s = Inr s'" and "\<forall>ob\<in>set (obstacles s). \<not> offscreen ob"
  shows "\<forall>ob\<in>set (obstacles s'). \<not> offscreen ob"
proof (cases ev)
  case (Frame rnd now)
  then have l: "loop W H rnd now s = Inr s'"
    using assms(1) by simp
  from loop_cases [OF l] show ?thesis
  proof (elim disjE exE conjE)
    assume "s' = s\<lparr>lastTime := now\<rparr>"
    then show ?thesis
      using assms(2) by simp
  next
    fix d0 s1
    assume r: "running s" "drop_ref s = Some d0"
      and u: "update W H rnd ((now - lastTime s) / 1000) now s = Inr s1"
      and s': "s' = s1\<lparr>lastTime := now\<rparr>"
    from update_running [OF r, of W H rnd "(now - lastTime s) / 1000" now] u
    have "obstacles s1 =
       survivors (drifted_speed rnd now s) (integrate d0) (obstacles s @ spawned W H rnd now s)"
      by auto
    then show ?thesis
      by (simp add: s' survivors_onscreen)
  qed
next
  case (Activate t1 t2)
  then show ?thesis
    using assms by (auto simp: flap_def reset_def split: if_splits option.splits)
next
  case (Restart t1 t2)
  then show ?thesis
    using assms(1) by (auto simp: reset_def)
qed

lemma execs_onscreen:
  "execs W H evs s = Inr s' \<Longrightarrow> \<forall>ob\<in>set (obstacles s). \<not> offscreen ob \<Longrightarrow>
   \<forall>ob\<in>set (obstacles s'). \<not> offscreen ob"
proof (induction evs arbitrary: s)
  case Nil
  then show ?case by simp
next
  case (Cons ev evs)
  from Cons.prems(1) obtain s1 where s1: "exec W H ev s = Inr s1" "execs W H evs s1 = Inr s'"
    by (auto split: sum.splits)
  show ?case
    by (rule Cons.IH [OF s1(2) exec_onscreen [OF s1(1) Cons.prems(2)]])
qed

text \<open>
  C9.  In every physics step of a run the collection after the step is the collection
  before the movement loop (the obstacles of the previous frame, followed by the one
  this frame spawns, if any), each obstacle moved once, without those whose trailing
  edge is then left of -50: the descending loop visits every element exactly once, and
  the order of the others is kept.  So no obstacle with \<open>x + w < -50\<close> is in the
  collection after the step, and none is in the collection after any later sequence
  of events, each of which returns.
\<close>

theorem offscreen_removed:
  assumes "running s" and "drop_ref s = Some d0"
  shows "\<exists>s'. update W H rnd dt now s = Inr s' \<and>
     obstacles s' =
       filter (\<lambda>ob. \<not> ob_x ob + ob_w ob < - 50)
         (map (moved (speed s') (integrate d0)) (obstacles s @ spawned W H rnd now s)) \<and>
     (\<forall>ob\<in>set (obstacles s'). \<not> ob_x ob + ob_w ob < - 50) \<and>
     (\<forall>evs. \<exists>s''. execs W H evs s' = Inr s'' \<and>
        (\<forall>ob\<in>set (obstacles s''). \<not> ob_x ob + ob_w ob < - 50))"
proof -
  from update_running [OF assms, of W H rnd dt now]
  obtain s' where s': "update W H rnd dt now s = Inr s'"
    and d: "drop_ref s' = Some (integrate d0)"
    and o: "obstacles s' =
       survivors (drifted_speed rnd now s) (integrate d0) (obstacles s @ spawned W H rnd now s)"
    and v: "speed s' = drifted_speed rnd now s"
    by blast
  have on: "\<forall>ob\<in>set (obstacles s'). \<not> offscreen ob"
    by (simp add: o survivors_onscreen)
  have later: "\<exists>s''. execs W H evs s' = Inr s'' \<and>
        (\<forall>ob\<in>set (obstacles s''). \<not> ob_x ob + ob_w ob < - 50)" for evs
  proof -
    have "drop_ref s' \<noteq> None"
      using d by simp
    then obtain s'' where s'': "execs W H evs s' = Inr s''"
      using execs_total by blast
    from execs_onscreen [OF s'' on] show ?thesis
      using s'' by (auto simp: offscreen_def)
  qed
  have "obstacles s' =
       filter (\<lambda>ob. \<not> ob_x ob + ob_w ob < - 50)
         (map (moved (speed s') (integrate d0)) (obstacles s @ spawned W H rnd now s))"
    using o v by (simp add: survivors_def offscreen_def)
  then show ?thesis
    using s' on later unfolding offscreen_def by blast
qed

theorem offscreen_removed_witness:
  "running two_pipes \<and> drop_ref two_pipes = Some fresh_drop \<and>
   map ob_x (obstacles two_pipes) = [- 133, 300] \<and>
   (\<exists>s'. update 480 640 calm 0.016 16 two_pipes = Inr s' \<and>
      map ob_x (obstacles s') = [297.8])"
proof -
  have h: "running two_pipes" "drop_ref two_pipes = Some fresh_drop"
    by (simp_all add: two_pipes_def boot_def reset_def fresh_drop_def)
  from offscreen_removed [OF h, of 480 640 calm "0.016" 16]
  obtain s' where s': "update 480 640 calm 0.016 16 two_pipes = Inr s'"
    and o: "obstacles s' =
       filter (\<lambda>ob. \<not> ob_x ob + ob_w ob < - 50)
         (map (moved (speed s') (integrate fresh_drop))
           (obstacles two_pipes @ spawned 480 640 calm 16 two_pipes))"
    by blast
  from update_running [OF h, of 480 640 calm "0.016" 16] s'
  have "speed s' = drifted_speed calm 16 two_pipes"
    by auto
  then have v: "speed s' = 2.2"
    by (simp add: drifted_speed_def spawn_gate_def two_pipes_def boot_def reset_def initial_def)
  have m: "map ob_x (obstacles s') = [297.8]"
    unfolding o v
    by (simp add: two_pipes_def spawned_def spawn_gate_def boot_def reset_def initial_def
        moved_def Let_def)
  have p: "map ob_x (obstacles two_pipes) = [- 133, 300]"
    by (simp add: two_pipes_def)
  show ?thesis
    by (intro conjI exI [of _ s']) (fact h s' m p)+
qed

subsection \<open>Scoring\<close>

lemma passed_integrate [simp]: "passed (integrate d) ob = passed d ob"
  by (simp add: passed_def integrate_def Let_def)

lemma passed_moved: "passed d (moved v d ob) = passed d (ob\<lparr>ob_x := ob_x ob - v\<rparr>)"
  by (simp add: moved_def passed_def Let_def)

lemma scored_moved: "ob_scored (moved v d ob) = (ob_scored ob \<or> passed d (moved v d ob))"
  by (auto simp: moved_def passed_def Let_def)

lemma newly_scored_iff:
  "newly_scored v d ob = (\<not> ob_scored ob \<and> ob_scored (moved v d ob))"
  by (auto simp: newly_scored_def scored_moved passed_moved)

lemma newly_scored_fun:
  "newly_scored v d = (\<lambda>ob. \<not> ob_scored ob \<and> ob_scored (moved v d ob))"
  by (rule ext) (rule newly_scored_iff)

lemma passed_stays: "0 \<le> v \<Longrightarrow> passed d ob \<Longrightarrow> passed d (moved v d ob)"
  by (simp add: passed_moved) (simp add: passed_def)

lemma moved_sync:
  assumes "0 \<le> v" and "ob_scored ob \<longrightarrow> passed d ob"
  shows "ob_scored (moved v d ob) = passed d (moved v d ob)"
  using assms passed_stays [of v d ob] by (auto simp: scored_moved)

lemma moved_through_scored: "ob_scored ob \<Longrightarrow> ob_scored (moved_through d vs ob)"
  unfolding moved_through_def
  by (induction vs arbitrary: ob) (simp_all add: scored_moved)

lemma survivors_sync:
  assumes "0 \<le> v" and "\<forall>ob\<in>set obs. ob_scored ob \<longrightarrow> passed d ob"
  shows "list_all (\<lambda>ob. ob_scored ob = passed d ob) (survivors v d obs)"
  using assms by (auto simp: survivors_def list_all_iff moved_sync)

lemma drifted_speed_ge: "speed s \<le> drifted_speed rnd now s"
  by (simp add: drifted_speed_def)

lemma spawned_unscored: "ob \<in> set (spawned W H rnd now s) \<Longrightarrow> \<not> ob_scored ob"
  by (simp add: spawned_def new_obstacle_def split: if_splits)

lemma update_in_step:
  assumes "running s" and "drop_ref s = Some d0" and "in_step s"
    and "update W H rnd dt now s = Inr s'"
  shows "in_step s'"
proof -
  let ?v = "drifted_speed rnd now s"
  let ?pre = "obstacles s @ spawned W H rnd now s"
  from update_running [OF assms(1,2), of W H rnd dt now] assms(4)
  have d: "drop_ref s' = Some (integrate d0)"
    and o: "obstacles s' = survivors ?v (integrate d0) ?pre"
    and v: "speed s' = ?v"
    by auto
  have v0: "0 \<le> ?v"
    using assms(3) drifted_speed_ge [of s rnd now] by (simp add: in_step_def)
  have "\<forall>ob\<in>set (obstacles s). ob_scored ob \<longrightarrow> passed d0 ob"
    using assms(2,3) by (simp add: in_step_def list_all_iff)
  then have "\<forall>ob\<in>set ?pre. ob_scored ob \<longrightarrow> passed (integrate d0) ob"
    using spawned_unscored [of _ W H rnd now s] by auto
  from survivors_sync [OF v0 this] show ?thesis
    using v0 by (simp add: in_step_def d o v)
qed

lemma exec_in_step:
  assumes "exec W H ev s = Inr s'" and "in_step s"
  shows "in_step s'"
proof (cases ev)
  case (Frame rnd now)
  then have l: "loop W H rnd now s = Inr s'"
    using assms(1) by simp
  from loop_cases [OF l] show ?thesis
  proof (elim disjE exE conjE)
    assume "s' = s\<lparr>lastTime := now\<rparr>"
    then show ?thesis
      using assms(2) by (simp add: in_step_def split: option.splits)
  next
    fix d0 s1
    assume r: "running s" "drop_ref s = Some d0"
      and u: "update W H rnd ((now - lastTime s) / 1000) now s = Inr s1"
      and s': "s' = s1\<lparr>lastTime := now\<rparr>"
    from update_in_step [OF r assms(2) u] show ?thesis
      by (simp add: s' in_step_def split: option.splits)
  qed
next
  case (Activate t1 t2)
  then show ?thesis
    using assms
    by (auto simp: flap_def reset_def in_step_def passed_def split: if_splits option.splits)
next
  case (Restart t1 t2)
  then show ?thesis
    using assms(1) by (auto simp: reset_def in_step_def)
qed

lemma execs_in_step: "execs W H evs s = Inr s' \<Longrightarrow> in_step s \<Longrightarrow> in_step s'"
proof (induction evs arbitrary: s)
  case Nil
  then show ?case by simp
next
  case (Cons ev evs)
  from Cons.prems(1) obtain s1 where s1: "exec W H ev s = Inr s1" "execs W H evs s1 = Inr s'"
    by (auto split: sum.splits)
  show ?case
    by (rule Cons.IH [OF s1(2) exec_in_step [OF s1(1) Cons.prems(2)]])
qed

lemma boot_in_step: "in_step (boot H t1 t2)"
  by (simp add: boot_def reset_def in_step_def)

lemma exec_score:
  assumes "exec W H ev s = Inr s'"
  shows "if calls_reset ev s then score s' = 0 \<and> running s'
         else score s \<le> score s' \<and> (running s' \<longrightarrow> running s)"
proof (cases ev)
  case (Frame rnd now)
  then have l: "loop W H rnd now s = Inr s'"
    using assms by simp
  from loop_cases [OF l] show ?thesis
  proof (elim disjE exE conjE)
    assume "s' = s\<lparr>lastTime := now\<rparr>"
    then show ?thesis
      using Frame by simp
  next
    fix d0 s1
    assume r: "running s" "drop_ref s = Some d0"
      and u: "update W H rnd ((now - lastTime s) / 1000) now s = Inr s1"
      and s': "s' = s1\<lparr>lastTime := now\<rparr>"
    from update_running [OF r, of W H rnd "(now - lastTime s) / 1000" now] u
    have "score s \<le> score s1"
      by auto
    then show ?thesis
      using Frame r(1) by (simp add: s')
  qed
next
  case (Activate t1 t2)
  then show ?thesis
    using assms by (auto simp: flap_def reset_def split: if_splits option.splits)
next
  case (Restart t1 t2)
  then show ?thesis
    using assms by (auto simp: reset_def)
qed

text \<open>
  C6.  Take a frame of a run in a state where the flags agree with the positions, as
  they do in every state the program reaches.  The physics step returns, and the flags
  agree with the positions again.  Every obstacle the movement loop visits keeps a
  true flag; its flag goes from false to true exactly when it was not scored and its
  trailing edge, after the move, is behind \<open>drop.x - drop.r\<close>; for an obstacle of the
  previous frame that is exactly when the edge was not yet behind the drop before the
  move and is behind it after.  The score grows by the number of these transitions, one
  for each, so it does not decrease.  Over any number of frames a true flag stays true.
  An event that calls \<open>reset\<close> sets the score to 0 and starts a run, every other event
  leaves the score at least what it was, and a state that is not running is followed by
  a running one only through \<open>reset\<close>.
\<close>

theorem scored_once:
  assumes "running s" and "drop_ref s = Some d0" and "in_step s"
  shows "(\<exists>s'. update W H rnd dt now s = Inr s' \<and> in_step s' \<and>
      obstacles s' =
        survivors (speed s') (integrate d0) (obstacles s @ spawned W H rnd now s) \<and>
      score s' = score s +
        length (filter (\<lambda>ob. \<not> ob_scored ob \<and> ob_scored (moved (speed s') (integrate d0) ob))
                  (obstacles s @ spawned W H rnd now s)) \<and>
      score s \<le> score s' \<and>
      (\<forall>ob\<in>set (obstacles s @ spawned W H rnd now s).
         (ob_scored ob \<longrightarrow> ob_scored (moved (speed s') (integrate d0) ob)) \<and>
         (\<not> ob_scored ob \<and> ob_scored (moved (speed s') (integrate d0) ob)) =
           (\<not> ob_scored ob \<and> passed d0 (moved (speed s') (integrate d0) ob))) \<and>
      (\<forall>ob\<in>set (obstacles s).
         (\<not> ob_scored ob \<and> ob_scored (moved (speed s') (integrate d0) ob)) =
           (\<not> passed d0 ob \<and> passed d0 (moved (speed s') (integrate d0) ob)))) \<and>
    (ob_scored ob \<longrightarrow> ob_scored (moved_through d vs ob)) \<and>
    (exec W H ev t = Inr t' \<longrightarrow>
       (calls_reset ev t \<longrightarrow> score t' = 0 \<and> running t') \<and>
       (\<not> calls_reset ev t \<longrightarrow> score t \<le> score t') \<and>
       (\<not> running t \<and> running t' \<longrightarrow> calls_reset ev t \<and> score t' = 0)) \<and>
    (execs W H evs (boot H t1 t2) = Inr sr \<longrightarrow> in_step sr)"
proof -
  let ?d = "integrate d0"
  let ?pre = "obstacles s @ spawned W H rnd now s"
  from update_running [OF assms(1,2), of W H rnd dt now]
  obtain s' where s': "update W H rnd dt now s = Inr s'"
    and o: "obstacles s' = survivors (drifted_speed rnd now s) ?d ?pre"
    and c: "score s' = score s + gained (drifted_speed rnd now s) ?d ?pre"
    and v: "speed s' = drifted_speed rnd now s"
    by blast
  have i: "in_step s'"
    using update_in_step [OF assms s'] .
  have o': "obstacles s' = survivors (speed s') ?d ?pre"
    using o v by simp
  have c': "score s' = score s +
        length (filter (\<lambda>ob. \<not> ob_scored ob \<and> ob_scored (moved (speed s') ?d ob)) ?pre)"
    using c v by (simp only: gained_def newly_scored_fun)
  have a: "\<forall>ob\<in>set ?pre.
         (ob_scored ob \<longrightarrow> ob_scored (moved (speed s') ?d ob)) \<and>
         (\<not> ob_scored ob \<and> ob_scored (moved (speed s') ?d ob)) =
           (\<not> ob_scored ob \<and> passed d0 (moved (speed s') ?d ob))"
    using scored_moved [of "speed s'" ?d] by auto
  have sync: "\<forall>ob\<in>set (obstacles s). ob_scored ob = passed d0 ob"
    using assms(2,3) by (simp add: in_step_def list_all_iff)
  have b: "\<forall>ob\<in>set (obstacles s).
         (\<not> ob_scored ob \<and> ob_scored (moved (speed s') ?d ob)) =
           (\<not> passed d0 ob \<and> passed d0 (moved (speed s') ?d ob))"
    using sync scored_moved [of "speed s'" ?d] by auto
  have frame: "\<exists>s'. update W H rnd dt now s = Inr s' \<and> in_step s' \<and>
      obstacles s' = survivors (speed s') ?d ?pre \<and>
      score s' = score s +
        length (filter (\<lambda>ob. \<not> ob_scored ob \<and> ob_scored (moved (speed s') ?d ob)) ?pre) \<and>
      score s \<le> score s' \<and>
      (\<forall>ob\<in>set ?pre.
         (ob_scored ob \<longrightarrow> ob_scored (moved (speed s') ?d ob)) \<and>
         (\<not> ob_scored ob \<and> ob_scored (moved (speed s') ?d ob)) =
           (\<not> ob_scored ob \<and> passed d0 (moved (speed s') ?d ob))) \<and>
      (\<forall>ob\<in>set (obstacles s).
         (\<not> ob_scored ob \<and> ob_scored (moved (speed s') ?d ob)) =
           (\<not> passed d0 ob \<and> passed d0 (moved (speed s') ?d ob)))"
    using s' i o' c' a b by (intro exI [of _ s'] conjI) simp_all
  have keeps: "ob_scored ob \<longrightarrow> ob_scored (moved_through d vs ob)"
    by (simp add: moved_through_scored)
  have event: "exec W H ev t = Inr t' \<longrightarrow>
       (calls_reset ev t \<longrightarrow> score t' = 0 \<and> running t') \<and>
       (\<not> calls_reset ev t \<longrightarrow> score t \<le> score t') \<and>
       (\<not> running t \<and> running t' \<longrightarrow> calls_reset ev t \<and> score t' = 0)"
    using exec_score [of W H ev t t'] by (auto split: if_splits)
  have reach: "execs W H evs (boot H t1 t2) = Inr sr \<longrightarrow> in_step sr"
    using execs_in_step [OF _ boot_in_step] by blast
  show ?thesis
    by (rule conjI [OF frame conjI [OF keeps conjI [OF event reach]]])
qed

theorem scored_once_witness:
  "running one_pipe \<and> drop_ref one_pipe = Some fresh_drop \<and> in_step one_pipe \<and>
   score one_pipe = 0 \<and> map ob_scored (obstacles one_pipe) = [False] \<and>
   (\<exists>s'. update 480 640 calm 0.016 16 one_pipe = Inr s' \<and> score s' = 1 \<and>
      map ob_scored (obstacles s') = [True] \<and> map ob_x (obstacles s') = [10.8])"
proof -
  let ?ob = "\<lparr>ob_x = 13, ob_w = 84, ob_gapY = 250, ob_gapH = 140,
                        ob_scored = False, ob_type = ''pipe''\<rparr>"
  have p: "obstacles one_pipe = [?ob]" "score one_pipe = 0" "speed one_pipe = 2.2"
    "spawned 480 640 calm 16 one_pipe = []"
    by (simp_all add: one_pipe_def boot_def reset_def initial_def spawned_def spawn_gate_def)
  have h: "running one_pipe" "drop_ref one_pipe = Some fresh_drop" "in_step one_pipe"
    by (simp_all add: one_pipe_def boot_def reset_def fresh_drop_def in_step_def passed_def)
  from scored_once [OF h, of 480 640 calm "0.016" 16]
  obtain s' where s': "update 480 640 calm 0.016 16 one_pipe = Inr s'"
    and o: "obstacles s' =
        survivors (speed s') (integrate fresh_drop)
          (obstacles one_pipe @ spawned 480 640 calm 16 one_pipe)"
    and c: "score s' = score one_pipe +
        length (filter (\<lambda>ob. \<not> ob_scored ob \<and>
                    ob_scored (moved (speed s') (integrate fresh_drop) ob))
                  (obstacles one_pipe @ spawned 480 640 calm 16 one_pipe))"
    by blast
  from update_running [OF h(1,2), of 480 640 calm "0.016" 16] s'
  have "speed s' = drifted_speed calm 16 one_pipe"
    by auto
  then have v: "speed s' = 2.2"
    using p by (simp add: drifted_speed_def calm_def)
  have r1: "score s' = 1"
    unfolding c v p by (simp add: moved_def fresh_drop_def integrate_def Let_def)
  have r2: "map ob_scored (obstacles s') = [True]" and r3: "map ob_x (obstacles s') = [10.8]"
    unfolding o v p
    by (simp_all add: survivors_def offscreen_def moved_def fresh_drop_def integrate_def Let_def)
  have q: "map ob_scored (obstacles one_pipe) = [False]"
    by (simp add: p)
  show ?thesis
    by (intro conjI exI [of _ s']) (fact h p(2) q s' r1 r2 r3)+
qed

end
